theory Spec2Isabelle
  imports Main
begin

section \<open>Data model\<close>

text \<open>
  The type \<open>IntentState\<close> of \<open>types/index.ts\<close>: the seven string literals of the union.
\<close>

datatype IntentState = idle | started | in_progress | waiting | blocked | completed | failed

text \<open>
  A callback is a JavaScript function object; \<open>indexOf\<close> compares function objects by
  identity. The identities that occur are: an observer supplied by a caller (\<open>Spy n\<close>,
  the \<open>n\<close>-th function object of the environment), and the closures the library itself
  subscribes: \<open>() => sync()\<close> of \<open>useIntentNavigation\<close>, \<open>(newState) => updateState(newState)\<close>
  of \<open>useIntentState\<close>, and \<open>() => updateElement(el, binding)\<close> of the directive's
  \<open>mounted\<close> hook (which closes over the binding argument).

  What a caller's observer does to the intent while it runs is a list of registry calls:
  invoking the unsubscribe handle that was returned for a callback, or subscribing a
  callback. Every invocation is recorded in the log \<open>calls\<close> of the world. Observers
  that also call a method of the same intent from inside their callback, or throw, are
  the subject of a later section, which extends the fan-out to them.
\<close>

datatype callback = Spy nat | NavSyncCb | TrackStateCb | DirectiveCb "string option"

datatype reg_action = Unsubscribe callback | Subscribe callback

type_synonym spy_env = "nat \<Rightarrow> reg_action list"

text \<open>
  The factory \<open>createIntent(config)\<close> of \<open>examples/basic/App.vue\<close> has copies in the test
  files that differ only in constants: \<open>protectNavigation\<close> is \<open>() => true\<close>,
  \<open>() => false\<close> or \<open>() => protect\<close>, and a test deletes \<open>subscribe\<close> from the object
  (the member is optional in the \<open>Intent\<close> interface). The configuration record carries
  these constants.
\<close>

record intent_config =
  cfg_id :: string
  cfg_allowed :: "bool option"
  cfg_protect :: bool
  cfg_subscribe :: bool

text \<open>The refs and local variables of \<open>useIntentState\<close>.\<close>

record tracker =
  currentState :: IntentState
  previous :: "IntentState option"
  transitions :: "IntentState list"
  duration :: int
  stateStartTime :: int

text \<open>
  The DOM element as the directive uses it: the \<open>disabled\<close> property (present on buttons
  and inputs only), the attributes, the class list, \<open>style.display\<close>, and the two private
  fields of \<open>IntentDirectiveElement\<close>.
\<close>

record element =
  hasDisabled :: bool
  disabled :: bool
  attrs :: "string \<rightharpoonup> string"
  classList :: "string list"
  styleDisplay :: string
  intentOriginalDisplay :: "string option"
  intentUnsubscribe :: "callback option"

datatype binding_value = Null | Undefined | IntentRef

record binding =
  bvalue :: binding_value
  barg :: "string option"

text \<open>
  The world: the closure variables \<open>state\<close> and \<open>subscribers\<close> of one intent, its
  configuration, the log of callback invocations (callback, argument passed), the value of
  \<open>Date.now()\<close>, the two refs of \<open>useIntentNavigation\<close>, the tracker of \<open>useIntentState\<close> and
  the element of the directive.
\<close>

record world =
  config :: intent_config
  state :: IntentState
  subscribers :: "callback list"
  calls :: "(callback \<times> IntentState) list"
  clock :: int
  navIsActive :: bool
  navProtectNavigation :: bool
  trackerRefs :: tracker
  el :: element

section \<open>The intent factory\<close>

definition blankElement :: element where
  "blankElement =
     \<lparr>hasDisabled = False, disabled = False, attrs = Map.empty, classList = [],
      styleDisplay = [], intentOriginalDisplay = None, intentUnsubscribe = None\<rparr>"

definition createIntent :: "intent_config \<Rightarrow> world" where
  "createIntent cfg =
     \<lparr>config = cfg, state = idle, subscribers = [], calls = [], clock = 0,
      navIsActive = False, navProtectNavigation = False,
      trackerRefs = \<lparr>currentState = idle, previous = None, transitions = [],
                     duration = 0, stateStartTime = 0\<rparr>,
      el = blankElement\<rparr>"

subsection \<open>Derived predicates\<close>

definition isActive :: "world \<Rightarrow> bool" where
  "isActive w = (state w = started \<or> state w = in_progress)"

definition isCompleted :: "world \<Rightarrow> bool" where
  "isCompleted w = (state w = completed)"

definition isFailed :: "world \<Rightarrow> bool" where
  "isFailed w = (state w = failed)"

definition isBlocked :: "world \<Rightarrow> bool" where
  "isBlocked w = (state w = blocked)"

definition isWaiting :: "world \<Rightarrow> bool" where
  "isWaiting w = (state w = waiting)"

definition allowed :: "world \<Rightarrow> bool" where
  "allowed w = (cfg_allowed (config w) \<noteq> Some False)"

definition protectNavigation :: "world \<Rightarrow> bool" where
  "protectNavigation w = cfg_protect (config w)"

fun state_string :: "IntentState \<Rightarrow> string" where
  "state_string idle = ''idle''"
| "state_string started = ''started''"
| "state_string in_progress = ''in-progress''"
| "state_string waiting = ''waiting''"
| "state_string blocked = ''blocked''"
| "state_string completed = ''completed''"
| "state_string failed = ''failed''"

definition message :: "world \<Rightarrow> string" where
  "message w = cfg_id (config w) @ '' is '' @ state_string (state w)"

text \<open>
  The computed properties of \<open>useIntent\<close> are the same comparisons, made on the value of
  the composable's \<open>state\<close> ref.
\<close>

definition useIntent_isActive :: "IntentState \<Rightarrow> bool" where
  "useIntent_isActive state_value = (state_value = started \<or> state_value = in_progress)"

definition useIntent_isCompleted :: "IntentState \<Rightarrow> bool" where
  "useIntent_isCompleted state_value = (state_value = completed)"

definition useIntent_isFailed :: "IntentState \<Rightarrow> bool" where
  "useIntent_isFailed state_value = (state_value = failed)"

definition useIntent_isBlocked :: "IntentState \<Rightarrow> bool" where
  "useIntent_isBlocked state_value = (state_value = blocked)"

definition useIntent_isWaiting :: "IntentState \<Rightarrow> bool" where
  "useIntent_isWaiting state_value = (state_value = waiting)"

subsection \<open>The registry: subscribe and the unsubscribe handle\<close>

text \<open>
  \<open>Array.prototype.indexOf\<close>: the first index holding the element, or \<open>-1\<close>.
  \<open>splice(index, 1)\<close> removes the element at \<open>index\<close> and shifts the rest down.
\<close>

fun indexOf :: "'a list \<Rightarrow> 'a \<Rightarrow> int" where
  "indexOf [] x = -1"
| "indexOf (y # ys) x =
     (if y = x then 0 else (let i = indexOf ys x in if i > -1 then i + 1 else -1))"

definition splice1 :: "'a list \<Rightarrow> nat \<Rightarrow> 'a list" where
  "splice1 xs i = take i xs @ drop (Suc i) xs"

definition subscribe :: "callback \<Rightarrow> world \<Rightarrow> world" where
  "subscribe callback w = w\<lparr>subscribers := subscribers w @ [callback]\<rparr>"

text \<open>
  \<open>unsubscribe callback\<close> is the handle that \<open>subscribe(callback)\<close> returned: the closure
  holds nothing but \<open>callback\<close>, so every handle returned for one function object is the
  same function of the world.
\<close>

definition unsubscribe :: "callback \<Rightarrow> world \<Rightarrow> world" where
  "unsubscribe callback w =
     (let index = indexOf (subscribers w) callback
      in if index > -1 then w\<lparr>subscribers := splice1 (subscribers w) (nat index)\<rparr> else w)"

subsection \<open>The consumers' callbacks\<close>

definition sync :: "world \<Rightarrow> world" where
  "sync w = w\<lparr>navIsActive := isActive w, navProtectNavigation := protectNavigation w\<rparr>"

definition updateState :: "int \<Rightarrow> IntentState \<Rightarrow> tracker \<Rightarrow> tracker" where
  "updateState now newState t =
     (if newState \<noteq> currentState t
      then t\<lparr>previous := Some (currentState t), currentState := newState,
             transitions := transitions t @ [newState], stateStartTime := now, duration := 0\<rparr>
      else t)"

definition classList_add :: "string \<Rightarrow> element \<Rightarrow> element" where
  "classList_add c e = (if c \<in> set (classList e) then e else e\<lparr>classList := classList e @ [c]\<rparr>)"

definition classList_remove :: "string \<Rightarrow> element \<Rightarrow> element" where
  "classList_remove c e = e\<lparr>classList := removeAll c (classList e)\<rparr>"

definition setAttribute :: "string \<Rightarrow> string \<Rightarrow> element \<Rightarrow> element" where
  "setAttribute k v e = e\<lparr>attrs := (attrs e)(k \<mapsto> v)\<rparr>"

definition removeAttribute :: "string \<Rightarrow> element \<Rightarrow> element" where
  "removeAttribute k e = e\<lparr>attrs := (attrs e)(k := None)\<rparr>"

definition setDisabled :: "bool \<Rightarrow> element \<Rightarrow> element" where
  "setDisabled b e = (if hasDisabled e then e\<lparr>disabled := b\<rparr> else e)"

definition String_bool :: "bool \<Rightarrow> string" where
  "String_bool b = (if b then ''true'' else ''false'')"

text \<open>\<open>x || ''\<close> on an optional string: the string when it is present and non-empty.\<close>

definition or_empty :: "string option \<Rightarrow> string" where
  "or_empty s = (case s of None \<Rightarrow> [] | Some v \<Rightarrow> v)"

definition updateElement :: "world \<Rightarrow> binding \<Rightarrow> element \<Rightarrow> element" where
  "updateElement w b e =
     (if bvalue b \<noteq> IntentRef then e
      else
        let isAllowed = allowed w; active = isActive w
        in if barg b = Some ''disabled'' then
             (let e1 = setDisabled (\<not> isAllowed \<or> active) e;
                  e2 = setAttribute ''aria-disabled'' (String_bool (\<not> isAllowed \<or> active)) e1
              in if \<not> isAllowed \<or> active then classList_add ''intent-disabled'' e2
                 else classList_remove ''intent-disabled'' e2)
           else if barg b = Some ''loading'' then
             (if active then setAttribute ''aria-busy'' ''true'' (classList_add ''intent-loading'' e)
              else setAttribute ''aria-busy'' ''false'' (classList_remove ''intent-loading'' e))
           else if barg b = Some ''hidden'' then
             (if \<not> isAllowed then
                (let e1 = (if or_empty (intentOriginalDisplay e) = []
                           then e\<lparr>intentOriginalDisplay := Some (styleDisplay e)\<rparr> else e)
                 in setAttribute ''aria-hidden'' ''true'' (e1\<lparr>styleDisplay := ''none''\<rparr>))
              else removeAttribute ''aria-hidden''
                     (e\<lparr>styleDisplay := or_empty (intentOriginalDisplay e)\<rparr>))
           else
             (let e1 = setDisabled (\<not> isAllowed) e;
                  e2 = setAttribute ''aria-disabled'' (String_bool (\<not> isAllowed)) e1;
                  e3 = (if \<not> isAllowed then classList_add ''intent-disabled'' e2
                        else classList_remove ''intent-disabled'' e2)
              in if active then classList_add ''intent-active'' e3
                 else classList_remove ''intent-active'' e3))"

subsection \<open>Invoking one callback\<close>

fun runActions :: "reg_action list \<Rightarrow> world \<Rightarrow> world" where
  "runActions [] w = w"
| "runActions (Unsubscribe c # as) w = runActions as (unsubscribe c w)"
| "runActions (Subscribe c # as) w = runActions as (subscribe c w)"

text \<open>
  \<open>cb(state)\<close>: the argument is the closure variable \<open>state\<close>, read when the callback is
  called.
\<close>

definition invoke :: "spy_env \<Rightarrow> callback \<Rightarrow> world \<Rightarrow> world" where
  "invoke acts c w =
     (let w1 = w\<lparr>calls := calls w @ [(c, state w)]\<rparr>
      in case c of
           Spy n \<Rightarrow> runActions (acts n) w1
         | NavSyncCb \<Rightarrow> sync w1
         | TrackStateCb \<Rightarrow>
             w1\<lparr>trackerRefs := updateState (clock w1) (state w1) (trackerRefs w1)\<rparr>
         | DirectiveCb a \<Rightarrow>
             w1\<lparr>el := updateElement w1 \<lparr>bvalue = IntentRef, barg = a\<rparr> (el w1)\<rparr>)"

subsection \<open>Fan-out\<close>

text \<open>
  \<open>subscribers.forEach(cb => cb(state))\<close>. \<open>Array.prototype.forEach\<close> reads the length once,
  then visits the indices \<open>0 .. len - 1\<close> of the live array: an index that is no longer
  present when its turn comes is passed over, and elements appended during the loop are
  beyond \<open>len\<close>.
\<close>

function forEach :: "spy_env \<Rightarrow> nat \<Rightarrow> nat \<Rightarrow> world \<Rightarrow> world" where
  "forEach acts k len w =
     (if k < len
      then forEach acts (Suc k) len
             (if k < length (subscribers w) then invoke acts (subscribers w ! k) w else w)
      else w)"
  by pat_completeness auto
termination
  by (relation "measure (\<lambda>(acts, k, len, w). len - k)") auto

declare forEach.simps [simp del]

definition subscribers_forEach :: "spy_env \<Rightarrow> world \<Rightarrow> world" where
  "subscribers_forEach acts w = forEach acts 0 (length (subscribers w)) w"

subsection \<open>The transition operations\<close>

definition start :: "spy_env \<Rightarrow> world \<Rightarrow> world" where
  "start acts w = subscribers_forEach acts (w\<lparr>state := started\<rparr>)"

definition progress :: "spy_env \<Rightarrow> string option \<Rightarrow> world \<Rightarrow> world" where
  "progress acts step w = subscribers_forEach acts (w\<lparr>state := in_progress\<rparr>)"

definition wait :: "spy_env \<Rightarrow> string option \<Rightarrow> world \<Rightarrow> world" where
  "wait acts reason w = subscribers_forEach acts (w\<lparr>state := waiting\<rparr>)"

definition block :: "spy_env \<Rightarrow> string option \<Rightarrow> world \<Rightarrow> world" where
  "block acts reason w = subscribers_forEach acts (w\<lparr>state := blocked\<rparr>)"

definition complete :: "spy_env \<Rightarrow> world \<Rightarrow> world" where
  "complete acts w = subscribers_forEach acts (w\<lparr>state := completed\<rparr>)"

definition fail :: "spy_env \<Rightarrow> string option \<Rightarrow> world \<Rightarrow> world" where
  "fail acts error w = subscribers_forEach acts (w\<lparr>state := failed\<rparr>)"

definition reset :: "spy_env \<Rightarrow> world \<Rightarrow> world" where
  "reset acts w = subscribers_forEach acts (w\<lparr>state := idle\<rparr>)"

definition replay :: "spy_env \<Rightarrow> world \<Rightarrow> world" where
  "replay acts w = subscribers_forEach acts (w\<lparr>state := idle\<rparr>)"

text \<open>A call of one of the eight methods, and a sequence of such calls.\<close>

datatype operation =
  Start | Progress "string option" | Wait "string option" | Block "string option"
  | Complete | Fail "string option" | Reset | Replay

fun perform :: "spy_env \<Rightarrow> operation \<Rightarrow> world \<Rightarrow> world" where
  "perform acts Start w = start acts w"
| "perform acts (Progress step) w = progress acts step w"
| "perform acts (Wait reason) w = wait acts reason w"
| "perform acts (Block reason) w = block acts reason w"
| "perform acts Complete w = complete acts w"
| "perform acts (Fail error) w = fail acts error w"
| "perform acts Reset w = reset acts w"
| "perform acts Replay w = replay acts w"

fun perform_all :: "spy_env \<Rightarrow> operation list \<Rightarrow> world \<Rightarrow> world" where
  "perform_all acts [] w = w"
| "perform_all acts (operation # rest) w = perform_all acts rest (perform acts operation w)"

text \<open>The target state the specification documents for each operation.\<close>

fun documented_target :: "operation \<Rightarrow> IntentState" where
  "documented_target Start = started"
| "documented_target (Progress step) = in_progress"
| "documented_target (Wait reason) = waiting"
| "documented_target (Block reason) = blocked"
| "documented_target Complete = completed"
| "documented_target (Fail error) = failed"
| "documented_target Reset = idle"
| "documented_target Replay = idle"

text \<open>
  A callback that does not call \<open>subscribe\<close> or an unsubscribe handle while it runs. The
  library's own callbacks never do.
\<close>

fun non_mutating :: "spy_env \<Rightarrow> callback \<Rightarrow> bool" where
  "non_mutating acts (Spy n) = (acts n = [])"
| "non_mutating acts NavSyncCb = True"
| "non_mutating acts TrackStateCb = True"
| "non_mutating acts (DirectiveCb a) = True"

text \<open>
  The truth table of the derived predicates as the specification documents it, in the
  order isActive, isCompleted, isFailed, isBlocked, isWaiting.
\<close>

fun documented_predicates :: "IntentState \<Rightarrow> bool \<times> bool \<times> bool \<times> bool \<times> bool" where
  "documented_predicates idle = (False, False, False, False, False)"
| "documented_predicates started = (True, False, False, False, False)"
| "documented_predicates in_progress = (True, False, False, False, False)"
| "documented_predicates waiting = (False, False, False, False, True)"
| "documented_predicates blocked = (False, False, False, True, False)"
| "documented_predicates completed = (False, True, False, False, False)"
| "documented_predicates failed = (False, False, True, False, False)"

fun count_true :: "bool \<times> bool \<times> bool \<times> bool \<times> bool \<Rightarrow> nat" where
  "count_true (a, b, c, d, e) = length (filter id [a, b, c, d, e])"

section \<open>Observers that call back into the intent, or throw\<close>

text \<open>
  \<open>cb(state)\<close> calls an arbitrary function. Besides the registry calls above, the body of
  an observer may call one of the eight methods of the same intent, which runs a nested
  fan-out before the callback goes on, or throw, which ends the callback, the
  \<open>forEach\<close> loop and the method that started it, the stored state staying as it is.
  A result is the world together with the exception that is propagating, if any.

  A nested call is made through a parameter \<open>h\<close>, what a method of the intent does when it
  is called from inside a callback. \<open>call_re depth\<close> closes the knot: a method call with
  \<open>depth\<close> frames of call stack left; with none left the call fails with the engine's
  \<open>RangeError\<close>, which is how unbounded re-entrance ends in JavaScript.

  The definitions repeat the ones above with the richer observers; \<open>registry_only\<close> embeds
  the observers above, and for them both fan-outs agree (lemma \<open>perform_registry_only\<close>).
\<close>

datatype exn = ObserverError | RangeError

datatype observer_action = Registry reg_action | Call operation | Throw

type_synonym observer_env = "nat \<Rightarrow> observer_action list"

type_synonym outcome = "world \<times> exn option"

type_synonym reentry = "operation \<Rightarrow> world \<Rightarrow> outcome"

fun runActions_re :: "reentry \<Rightarrow> observer_action list \<Rightarrow> world \<Rightarrow> outcome" where
  "runActions_re h [] w = (w, None)"
| "runActions_re h (Registry (Unsubscribe c) # as) w = runActions_re h as (unsubscribe c w)"
| "runActions_re h (Registry (Subscribe c) # as) w = runActions_re h as (subscribe c w)"
| "runActions_re h (Call operation # as) w =
     (case h operation w of
        (w1, None) \<Rightarrow> runActions_re h as w1
      | (w1, Some e) \<Rightarrow> (w1, Some e))"
| "runActions_re h (Throw # as) w = (w, Some ObserverError)"

definition invoke_re :: "reentry \<Rightarrow> observer_env \<Rightarrow> callback \<Rightarrow> world \<Rightarrow> outcome" where
  "invoke_re h acts c w =
     (let w1 = w\<lparr>calls := calls w @ [(c, state w)]\<rparr>
      in case c of
           Spy n \<Rightarrow> runActions_re h (acts n) w1
         | NavSyncCb \<Rightarrow> (sync w1, None)
         | TrackStateCb \<Rightarrow>
             (w1\<lparr>trackerRefs := updateState (clock w1) (state w1) (trackerRefs w1)\<rparr>, None)
         | DirectiveCb a \<Rightarrow>
             (w1\<lparr>el := updateElement w1 \<lparr>bvalue = IntentRef, barg = a\<rparr> (el w1)\<rparr>, None))"

function forEach_re :: "reentry \<Rightarrow> observer_env \<Rightarrow> nat \<Rightarrow> nat \<Rightarrow> world \<Rightarrow> outcome" where
  "forEach_re h acts k len w =
     (if k < len
      then (if k < length (subscribers w)
            then (case invoke_re h acts (subscribers w ! k) w of
                    (w1, None) \<Rightarrow> forEach_re h acts (Suc k) len w1
                  | (w1, Some e) \<Rightarrow> (w1, Some e))
            else forEach_re h acts (Suc k) len w)
      else (w, None))"
  by pat_completeness auto
termination
  by (relation "measure (\<lambda>(h, acts, k, len, w). len - k)") auto

declare forEach_re.simps [simp del]

definition subscribers_forEach_re :: "reentry \<Rightarrow> observer_env \<Rightarrow> world \<Rightarrow> outcome" where
  "subscribers_forEach_re h acts w = forEach_re h acts 0 (length (subscribers w)) w"

definition start_re :: "reentry \<Rightarrow> observer_env \<Rightarrow> world \<Rightarrow> outcome" where
  "start_re h acts w = subscribers_forEach_re h acts (w\<lparr>state := started\<rparr>)"

definition progress_re :: "reentry \<Rightarrow> observer_env \<Rightarrow> string option \<Rightarrow> world \<Rightarrow> outcome" where
  "progress_re h acts step w = subscribers_forEach_re h acts (w\<lparr>state := in_progress\<rparr>)"

definition wait_re :: "reentry \<Rightarrow> observer_env \<Rightarrow> string option \<Rightarrow> world \<Rightarrow> outcome" where
  "wait_re h acts reason w = subscribers_forEach_re h acts (w\<lparr>state := waiting\<rparr>)"

definition block_re :: "reentry \<Rightarrow> observer_env \<Rightarrow> string option \<Rightarrow> world \<Rightarrow> outcome" where
  "block_re h acts reason w = subscribers_forEach_re h acts (w\<lparr>state := blocked\<rparr>)"

definition complete_re :: "reentry \<Rightarrow> observer_env \<Rightarrow> world \<Rightarrow> outcome" where
  "complete_re h acts w = subscribers_forEach_re h acts (w\<lparr>state := completed\<rparr>)"

definition fail_re :: "reentry \<Rightarrow> observer_env \<Rightarrow> string option \<Rightarrow> world \<Rightarrow> outcome" where
  "fail_re h acts error w = subscribers_forEach_re h acts (w\<lparr>state := failed\<rparr>)"

definition reset_re :: "reentry \<Rightarrow> observer_env \<Rightarrow> world \<Rightarrow> outcome" where
  "reset_re h acts w = subscribers_forEach_re h acts (w\<lparr>state := idle\<rparr>)"

definition replay_re :: "reentry \<Rightarrow> observer_env \<Rightarrow> world \<Rightarrow> outcome" where
  "replay_re h acts w = subscribers_forEach_re h acts (w\<lparr>state := idle\<rparr>)"

fun perform_re :: "reentry \<Rightarrow> observer_env \<Rightarrow> operation \<Rightarrow> world \<Rightarrow> outcome" where
  "perform_re h acts Start w = start_re h acts w"
| "perform_re h acts (Progress step) w = progress_re h acts step w"
| "perform_re h acts (Wait reason) w = wait_re h acts reason w"
| "perform_re h acts (Block reason) w = block_re h acts reason w"
| "perform_re h acts Complete w = complete_re h acts w"
| "perform_re h acts (Fail error) w = fail_re h acts error w"
| "perform_re h acts Reset w = reset_re h acts w"
| "perform_re h acts Replay w = replay_re h acts w"

primrec call_re :: "nat \<Rightarrow> observer_env \<Rightarrow> operation \<Rightarrow> world \<Rightarrow> outcome" where
  "call_re 0 acts = (\<lambda>operation w. (w, Some RangeError))"
| "call_re (Suc depth) acts = perform_re (call_re depth acts) acts"

text \<open>An action that is not a call of a method of the intent; one that is not a throw.\<close>

fun no_call :: "observer_action \<Rightarrow> bool" where
  "no_call (Registry a) = True"
| "no_call (Call operation) = False"
| "no_call Throw = True"

fun no_throw :: "observer_action \<Rightarrow> bool" where
  "no_throw (Registry a) = True"
| "no_throw (Call operation) = True"
| "no_throw Throw = False"

fun registry_only :: "spy_env \<Rightarrow> observer_env" where
  "registry_only acts n = map Registry (acts n)"

section \<open>The composables and the directive\<close>

subsection \<open>useIntentNavigation\<close>







subsection \<open>useIntentState\<close>

definition useIntentState :: "world \<Rightarrow> world" where
  "useIntentState w =
     (let w1 = w\<lparr>trackerRefs :=
                   \<lparr>currentState = state w, previous = None, transitions = [state w],
                    duration = 0, stateStartTime = clock w\<rparr>\<rparr>
      in if cfg_subscribe (config w1) then subscribe TrackStateCb w1 else w1)"

text \<open>The body of the 100 ms interval timer.\<close>

definition durationTick :: "world \<Rightarrow> world" where
  "durationTick w =
     (if isActive w
      then w\<lparr>trackerRefs := (trackerRefs w)\<lparr>duration := clock w - stateStartTime (trackerRefs w)\<rparr>\<rparr>
      else w)"

definition isIn :: "IntentState list \<Rightarrow> world \<Rightarrow> bool" where
  "isIn states w = (currentState (trackerRefs w) \<in> set states)"

text \<open>
  The history is well formed: it is not empty, it ends with the tracked state, and no two
  neighbours in it are equal.
\<close>

definition history_ok :: "tracker \<Rightarrow> bool" where
  "history_ok t =
     (transitions t \<noteq> [] \<and> last (transitions t) = currentState t \<and> distinct_adj (transitions t))"

subsection \<open>The directive v-intent\<close>

definition mounted :: "binding \<Rightarrow> world \<Rightarrow> world" where
  "mounted b w =
     (if bvalue b \<noteq> IntentRef then w
      else
        let w1 = w\<lparr>el := updateElement w b (el w)\<rparr>
        in if cfg_subscribe (config w1)
           then (let w2 = subscribe (DirectiveCb (barg b)) w1
                 in w2\<lparr>el := (el w2)\<lparr>intentUnsubscribe := Some (DirectiveCb (barg b))\<rparr>\<rparr>)
           else w1)"

definition updated :: "binding \<Rightarrow> world \<Rightarrow> world" where
  "updated b w = w\<lparr>el := updateElement w b (el w)\<rparr>"

definition beforeUnmount :: "world \<Rightarrow> world" where
  "beforeUnmount w =
     (let w1 = (case intentUnsubscribe (el w) of
                  Some handle \<Rightarrow>
                    (let w2 = unsubscribe handle w
                     in w2\<lparr>el := (el w2)\<lparr>intentUnsubscribe := None\<rparr>\<rparr>)
                | None \<Rightarrow> w)
      in w1\<lparr>el := (el w1)\<lparr>intentOriginalDisplay := None\<rparr>\<rparr>)"

section \<open>Concrete intents and observers\<close>

text \<open>
  The intent of the example application (\<open>protectNavigation: () => true\<close>), and the same
  object with \<open>subscribe\<close> deleted, as one of the tests builds it.
\<close>

definition upload_config :: intent_config where
  "upload_config =
     \<lparr>cfg_id = ''upload'', cfg_allowed = None, cfg_protect = True, cfg_subscribe = True\<rparr>"


text \<open>Observers that only record their calls.\<close>

fun recording :: spy_env where
  "recording n = []"

text \<open>
  Observers of which the first, \<open>Spy 0\<close>, calls its own unsubscribe handle as the first
  action of its callback; the others only record.
\<close>

fun self_detaching :: spy_env where
  "self_detaching n = (if n = 0 then [Unsubscribe (Spy 0)] else [])"

text \<open>Intents of the example application with observers attached.\<close>

definition two_observers :: world where
  "two_observers = subscribe (Spy 1) (subscribe (Spy 0) (createIntent upload_config))"

definition twice_subscribed :: world where
  "twice_subscribed = subscribe (Spy 0) (subscribe (Spy 0) (createIntent upload_config))"


text \<open>
  One observer on the example intent; an observer that detaches itself and then calls
  \<open>complete()\<close>; observers that throw; observers that call \<open>start()\<close> again.
\<close>

definition one_observer :: world where
  "one_observer = subscribe (Spy 0) (createIntent upload_config)"

fun completing_once :: observer_env where
  "completing_once n = (if n = 0 then [Registry (Unsubscribe (Spy 0)), Call Complete] else [])"

fun throwing :: observer_env where
  "throwing n = [Throw]"

fun restarting :: observer_env where
  "restarting n = [Call Start]"

section \<open>Properties of the registry and of the fan-out\<close>

lemma forEach_preserves:
  assumes step: "\<And>c v. P v \<Longrightarrow> P (invoke acts c v)" and init: "P w"
  shows "P (forEach acts k len w)"
  using init
proof (induction "len - k" arbitrary: k w)
  case 0
  then show ?case by (subst forEach.simps) simp
next
  case (Suc n)
  let ?v = "if k < length (subscribers w) then invoke acts (subscribers w ! k) w else w"
  have "P ?v" using Suc.prems by (simp add: step)
  moreover have "n = len - Suc k" using Suc.hyps(2) by simp
  ultimately have "P (forEach acts (Suc k) len ?v)" using Suc.hyps(1) by blast
  moreover have "k < len" using Suc.hyps(2) by simp
  ultimately show ?case by (subst forEach.simps) simp
qed

lemma indexOf_ge: "- 1 \<le> indexOf xs x"
  by (induction xs) (simp_all add: Let_def)

lemma indexOf_found: "(- 1 < indexOf xs x) = (x \<in> set xs)"
proof (induction xs)
  case Nil
  show ?case by simp
next
  case (Cons y ys)
  then show ?case using indexOf_ge [of ys x] by (auto simp: Let_def)
qed

lemma splice1_indexOf: "x \<in> set xs \<Longrightarrow> splice1 xs (nat (indexOf xs x)) = remove1 x xs"
proof (induction xs)
  case Nil
  then show ?case by simp
next
  case (Cons y ys)
  show ?case
  proof (cases "y = x")
    case True
    then show ?thesis by (simp add: splice1_def)
  next
    case False
    with Cons.prems have mem: "x \<in> set ys" by simp
    then have pos: "- 1 < indexOf ys x" by (simp add: indexOf_found)
    then have "nat (indexOf ys x + 1) = Suc (nat (indexOf ys x))" by simp
    moreover have "splice1 ys (nat (indexOf ys x)) = remove1 x ys" using Cons.IH mem by simp
    ultimately show ?thesis using False pos by (simp add: splice1_def Let_def)
  qed
qed

lemma unsubscribe_remove1:
  "unsubscribe c w = w\<lparr>subscribers := remove1 c (subscribers w)\<rparr>"
proof (cases "c \<in> set (subscribers w)")
  case True
  then show ?thesis by (simp add: unsubscribe_def Let_def indexOf_found splice1_indexOf)
next
  case False
  then show ?thesis by (simp add: unsubscribe_def Let_def indexOf_found remove1_idem)
qed

lemma state_runActions: "state (runActions as w) = state w"
  by (induction as w rule: runActions.induct) (simp_all add: unsubscribe_remove1 subscribe_def)

lemma state_invoke: "state (invoke acts c w) = state w"
  by (cases c) (simp_all add: invoke_def Let_def state_runActions sync_def)

lemma state_forEach: "state (forEach acts k len w) = state w"
  by (rule forEach_preserves [where P = "\<lambda>v. state v = state w"]) (simp_all add: state_invoke)

lemma calls_runActions: "calls (runActions as w) = calls w"
  by (induction as w rule: runActions.induct) (simp_all add: unsubscribe_remove1 subscribe_def)

lemma calls_invoke: "calls (invoke acts c w) = calls w @ [(c, state w)]"
  by (cases c) (simp_all add: invoke_def Let_def calls_runActions sync_def)

lemma subscribers_invoke:
  "non_mutating acts c \<Longrightarrow> subscribers (invoke acts c w) = subscribers w"
  by (cases c) (simp_all add: invoke_def Let_def sync_def)

lemma take_drop_step:
  "k < len \<Longrightarrow> k < length xs \<Longrightarrow>
     take (len - k) (drop k xs) = xs ! k # take (len - Suc k) (drop (Suc k) xs)"
  by (metis Cons_nth_drop_Suc Suc_diff_Suc take_Suc_Cons)

text \<open>
  While the callbacks at the indices still to be visited do not touch the registry, the
  loop calls exactly those callbacks, in order, each with the stored state.
\<close>

lemma forEach_non_mutating:
  assumes "list_all (non_mutating acts) (take (len - k) (drop k (subscribers w)))"
  shows "subscribers (forEach acts k len w) = subscribers w \<and>
         calls (forEach acts k len w) =
           calls w @ map (\<lambda>c. (c, state w)) (take (len - k) (drop k (subscribers w)))"
  using assms
proof (induction "len - k" arbitrary: k w)
  case 0
  then show ?case by (subst (1 2) forEach.simps) simp
next
  case (Suc n)
  then have lt: "k < len" and n: "n = len - Suc k" by simp_all
  show ?case
  proof (cases "k < length (subscribers w)")
    case True
    let ?c = "subscribers w ! k"
    let ?v = "invoke acts ?c w"
    have split: "take (len - k) (drop k (subscribers w)) =
                   ?c # take (len - Suc k) (drop (Suc k) (subscribers w))"
      using lt True by (rule take_drop_step)
    have nm: "non_mutating acts ?c" using Suc.prems split by simp
    have subs: "subscribers ?v = subscribers w" using nm by (rule subscribers_invoke)
    have "list_all (non_mutating acts) (take (len - Suc k) (drop (Suc k) (subscribers ?v)))"
      using Suc.prems split subs by simp
    from Suc.hyps(1) [OF n this]
    have "subscribers (forEach acts (Suc k) len ?v) = subscribers w \<and>
          calls (forEach acts (Suc k) len ?v) =
            calls w @ map (\<lambda>c. (c, state w)) (take (len - k) (drop k (subscribers w)))"
      by (simp add: subs split calls_invoke state_invoke)
    then show ?thesis using lt True by (subst (1 2) forEach.simps) simp
  next
    case False
    then have empty: "drop k (subscribers w) = []" "drop (Suc k) (subscribers w) = []" by simp_all
    have "list_all (non_mutating acts) (take (len - Suc k) (drop (Suc k) (subscribers w)))"
      by (simp add: empty)
    from Suc.hyps(1) [OF n this]
    show ?thesis using lt False by (subst (1 2) forEach.simps) (simp add: empty)
  qed
qed

lemma forEach_split:
  "k \<le> m \<Longrightarrow> m \<le> len \<Longrightarrow>
     forEach acts k len w = forEach acts m len (forEach acts k m w)"
proof (induction "m - k" arbitrary: k w)
  case 0
  then have "k = m" by simp
  then show ?case by (subst (3) forEach.simps) simp
next
  case (Suc n)
  then have lt: "k < m" "k < len" and n: "n = m - Suc k" by simp_all
  let ?v = "if k < length (subscribers w) then invoke acts (subscribers w ! k) w else w"
  have "forEach acts (Suc k) len ?v = forEach acts m len (forEach acts (Suc k) m ?v)"
    using Suc.hyps(1) [OF n] lt Suc.prems by simp
  then show ?case using lt by (subst (1 3) forEach.simps) simp
qed



lemma count_list_remove1: "count_list (remove1 c xs) c = count_list xs c - 1"
  by (induction xs) auto

lemma pred_zero_iff: "((n::nat) - 1 = 0) = (n \<le> 1)"
  by arith

lemma remove1_fixed: "(remove1 c xs = xs) = (c \<notin> set xs)"
proof
  assume eq: "remove1 c xs = xs"
  show "c \<notin> set xs"
  proof
    assume mem: "c \<in> set xs"
    then have "length (remove1 c xs) = length xs - 1" by (simp add: length_remove1)
    moreover have "0 < length xs" using mem by (rule length_pos_if_in_set)
    ultimately have "length (remove1 c xs) < length xs" by arith
    then show False unfolding eq by simp
  qed
next
  assume "c \<notin> set xs"
  then show "remove1 c xs = xs" by (rule remove1_idem)
qed


lemma subscribers_update_eq:
  "(w\<lparr>subscribers := a\<rparr> = w\<lparr>subscribers := b\<rparr>) = (a = b)"
  by (metis world.select_convs(3) world.surjective world.update_convs(3))

text \<open>Every operation is: store the target state, then fan out.\<close>

lemma perform_eq:
  "perform acts operation w =
     subscribers_forEach acts (w\<lparr>state := documented_target operation\<rparr>)"
  by (cases operation)
    (simp_all add: start_def progress_def wait_def block_def complete_def fail_def reset_def
       replay_def)

text \<open>
  With a registry that no callback touches, a callback that is registered is reached by
  the loop: what it establishes, and every later callback keeps, holds at the end.
\<close>

lemma subscribers_forEach_prefix:
  assumes "list_all (non_mutating acts) (subscribers w)"
  shows "subscribers (forEach acts k len w) = subscribers w"
proof -
  have "set (take (len - k) (drop k (subscribers w))) \<subseteq> set (subscribers w)"
    using set_take_subset [of "len - k" "drop k (subscribers w)"]
      set_drop_subset [of k "subscribers w"] by blast
  then have "list_all (non_mutating acts) (take (len - k) (drop k (subscribers w)))"
    using assms by (auto simp: list_all_iff)
  from forEach_non_mutating [OF this] show ?thesis by simp
qed

lemma forEach_reaches:
  assumes nm: "list_all (non_mutating acts) (subscribers w)"
    and mem: "cb \<in> set (subscribers w)"
    and Q0: "Q w"
    and Qstep: "\<And>c v. Q v \<Longrightarrow> Q (invoke acts c v)"
    and hit: "\<And>v. Q v \<Longrightarrow> P (invoke acts cb v)"
    and Pstep: "\<And>c v. P v \<Longrightarrow> P (invoke acts c v)"
  shows "P (subscribers_forEach acts w)"
proof -
  let ?len = "length (subscribers w)"
  from mem obtain i where i: "i < ?len" "subscribers w ! i = cb"
    by (auto simp: in_set_conv_nth)
  let ?w1 = "forEach acts 0 i w"
  have s1: "subscribers ?w1 = subscribers w" using nm by (rule subscribers_forEach_prefix)
  have "Q ?w1" using Qstep Q0 by (rule forEach_preserves)
  then have "P (invoke acts cb ?w1)" by (rule hit)
  with Pstep have "P (forEach acts (Suc i) ?len (invoke acts cb ?w1))"
    by (rule forEach_preserves)
  moreover have "forEach acts i ?len ?w1 = forEach acts (Suc i) ?len (invoke acts cb ?w1)"
    using i s1 by (subst forEach.simps) simp
  moreover have "forEach acts 0 ?len w = forEach acts i ?len ?w1"
    using i by (intro forEach_split) simp_all
  ultimately show ?thesis by (simp add: subscribers_forEach_def)
qed

lemma frame_runActions:
  "config (runActions as w) = config w \<and> navIsActive (runActions as w) = navIsActive w \<and>
   navProtectNavigation (runActions as w) = navProtectNavigation w \<and>
   trackerRefs (runActions as w) = trackerRefs w \<and> clock (runActions as w) = clock w \<and>
   el (runActions as w) = el w"
  by (induction as w rule: runActions.induct) (simp_all add: unsubscribe_remove1 subscribe_def)





lemma subscribers_perform:
  "list_all (non_mutating acts) (subscribers w) \<Longrightarrow>
     subscribers (perform acts operation w) = subscribers w"
  by (simp add: perform_eq subscribers_forEach_def subscribers_forEach_prefix)

lemma state_perform: "state (perform acts operation w) = documented_target operation"
  by (simp add: perform_eq subscribers_forEach_def state_forEach)

lemma updateState_again: "updateState now s (updateState now s t) = updateState now s t"
  by (simp add: updateState_def)

lemma history_ok_updateState: "history_ok t \<Longrightarrow> history_ok (updateState now s t)"
  by (auto simp: history_ok_def updateState_def distinct_adj_append_iff)

lemma history_ok_invoke:
  "history_ok (trackerRefs w) \<Longrightarrow> history_ok (trackerRefs (invoke acts c w))"
  by (cases c) (simp_all add: invoke_def Let_def frame_runActions sync_def history_ok_updateState)

lemma history_ok_perform:
  "history_ok (trackerRefs w) \<Longrightarrow> history_ok (trackerRefs (perform acts operation w))"
  unfolding perform_eq subscribers_forEach_def
  by (rule forEach_preserves [where P = "\<lambda>v. history_ok (trackerRefs v)"])
     (simp_all add: history_ok_invoke)

lemma history_ok_perform_all:
  "history_ok (trackerRefs w) \<Longrightarrow> history_ok (trackerRefs (perform_all acts ops w))"
  by (induction ops arbitrary: w) (simp_all add: history_ok_perform)

lemma clock_invoke: "clock (invoke acts c w) = clock w"
  by (cases c) (simp_all add: invoke_def Let_def frame_runActions sync_def)

lemma tracker_perform:
  assumes nm: "list_all (non_mutating acts) (subscribers w)"
    and mem: "TrackStateCb \<in> set (subscribers w)"
  shows "trackerRefs (perform acts operation w) =
           updateState (clock w) (documented_target operation) (trackerRefs w)"
proof -
  let ?t = "documented_target operation"
  let ?w0 = "w\<lparr>state := ?t\<rparr>"
  let ?goal = "updateState (clock w) ?t (trackerRefs w)"
  let ?Q = "\<lambda>v. updateState (clock w) ?t (trackerRefs v) = ?goal \<and> state v = ?t \<and> clock v = clock w"
  let ?P = "\<lambda>v. trackerRefs v = ?goal \<and> state v = ?t \<and> clock v = clock w"
  have frame: "trackerRefs (invoke acts c v) =
                 (if c = TrackStateCb then updateState (clock v) (state v) (trackerRefs v)
                  else trackerRefs v)" for c v
    by (cases c) (simp_all add: invoke_def Let_def frame_runActions sync_def)
  have "?P (subscribers_forEach acts ?w0)"
  proof (rule forEach_reaches [where cb = TrackStateCb and Q = ?Q and P = ?P])
    show "list_all (non_mutating acts) (subscribers ?w0)" using nm by simp
    show "TrackStateCb \<in> set (subscribers ?w0)" using mem by simp
    show "?Q ?w0" by simp
    show "?Q (invoke acts c v)" if "?Q v" for c v
      using that by (simp add: frame state_invoke clock_invoke updateState_again)
    show "?P (invoke acts TrackStateCb v)" if "?Q v" for v
      using that by (simp add: frame state_invoke clock_invoke)
    show "?P (invoke acts c v)" if "?P v" for c v
      using that updateState_again [of "clock w" ?t "trackerRefs w"]
      by (simp add: frame state_invoke clock_invoke)
  qed
  then show ?thesis by (simp add: perform_eq)
qed

lemma tracker_perform_all:
  assumes "list_all (non_mutating acts) (subscribers w)"
    and "TrackStateCb \<in> set (subscribers w)"
    and "currentState (trackerRefs w) = state w"
    and "transitions (trackerRefs w) \<noteq> []"
    and "last (transitions (trackerRefs w)) = state w"
  shows "transitions (trackerRefs (perform_all acts ops w)) =
           butlast (transitions (trackerRefs w)) @ remdups_adj (state w # map documented_target ops) \<and>
         currentState (trackerRefs (perform_all acts ops w)) = state (perform_all acts ops w)"
  using assms
proof (induction ops arbitrary: w)
  case Nil
  then show ?case using append_butlast_last_id [of "transitions (trackerRefs w)"] by simp
next
  case (Cons operation rest)
  let ?t = "documented_target operation"
  let ?v = "perform acts operation w"
  have tr: "trackerRefs ?v = updateState (clock w) ?t (trackerRefs w)"
    using Cons.prems(1,2) by (rule tracker_perform)
  have subs: "subscribers ?v = subscribers w" using Cons.prems(1) by (rule subscribers_perform)
  have st: "state ?v = ?t" by (rule state_perform)
  have pre: "list_all (non_mutating acts) (subscribers ?v)" "TrackStateCb \<in> set (subscribers ?v)"
    "currentState (trackerRefs ?v) = state ?v" "transitions (trackerRefs ?v) \<noteq> []"
    "last (transitions (trackerRefs ?v)) = state ?v"
    using Cons.prems by (simp_all add: tr subs st updateState_def)
  note IH = Cons.IH [OF pre]
  have hist: "butlast (transitions (trackerRefs ?v)) @ remdups_adj (?t # map documented_target rest) =
        butlast (transitions (trackerRefs w)) @ remdups_adj (state w # ?t # map documented_target rest)"
  proof (cases "?t = state w")
    case True
    then show ?thesis using Cons.prems(3) by (simp add: tr updateState_def)
  next
    case False
    then show ?thesis
      using Cons.prems(3,4,5) append_butlast_last_id [of "transitions (trackerRefs w)"]
      by (simp add: tr updateState_def)
  qed
  show ?case using IH hist by (simp add: st)
qed

text \<open>
  The fan-out with observers that may call back or throw: the stored state is kept when no
  observer calls a method, no exception propagates when none calls a method or throws,
  and on registry-only observers it is the fan-out above.
\<close>

lemma perform_re_eq:
  "perform_re h acts operation w =
     subscribers_forEach_re h acts (w\<lparr>state := documented_target operation\<rparr>)"
  by (cases operation)
    (simp_all add: start_re_def progress_re_def wait_re_def block_re_def complete_re_def
       fail_re_def reset_re_def replay_re_def)

lemma state_runActions_re:
  "list_all no_call as \<Longrightarrow> state (fst (runActions_re h as w)) = state w"
  by (induction h as w rule: runActions_re.induct)
     (simp_all add: unsubscribe_remove1 subscribe_def)

lemma normal_runActions_re:
  "list_all no_call as \<Longrightarrow> list_all no_throw as \<Longrightarrow> snd (runActions_re h as w) = None"
  by (induction h as w rule: runActions_re.induct) simp_all

lemma state_invoke_re:
  "(\<And>n. list_all no_call (acts n)) \<Longrightarrow> state (fst (invoke_re h acts c w)) = state w"
  by (cases c) (simp_all add: invoke_re_def Let_def state_runActions_re sync_def)

lemma normal_invoke_re:
  "(\<And>n. list_all no_call (acts n)) \<Longrightarrow> (\<And>n. list_all no_throw (acts n)) \<Longrightarrow>
     snd (invoke_re h acts c w) = None"
  by (cases c) (simp_all add: invoke_re_def Let_def normal_runActions_re)

lemma state_forEach_re:
  assumes "\<And>n. list_all no_call (acts n)"
  shows "state (fst (forEach_re h acts k len w)) = state w"
proof (induction "len - k" arbitrary: k w)
  case 0
  then show ?case by (subst forEach_re.simps) simp
next
  case (Suc m)
  then have lt: "k < len" and m: "m = len - Suc k" by simp_all
  show ?case
  proof (cases "k < length (subscribers w)")
    case True
    obtain w1 r where inv: "invoke_re h acts (subscribers w ! k) w = (w1, r)"
      by (cases "invoke_re h acts (subscribers w ! k) w")
    have st: "state w1 = state w"
      using state_invoke_re [of acts h "subscribers w ! k" w] assms inv by simp
    show ?thesis
    proof (cases r)
      case None
      then show ?thesis
        using Suc.hyps(1) [OF m, of w1] lt True inv st by (subst forEach_re.simps) simp
    next
      case (Some e)
      then show ?thesis using lt True inv st by (subst forEach_re.simps) simp
    qed
  next
    case False
    then show ?thesis using Suc.hyps(1) [OF m, of w] lt by (subst forEach_re.simps) simp
  qed
qed

lemma normal_forEach_re:
  assumes "\<And>n. list_all no_call (acts n)" and "\<And>n. list_all no_throw (acts n)"
  shows "snd (forEach_re h acts k len w) = None"
proof (induction "len - k" arbitrary: k w)
  case 0
  then show ?case by (subst forEach_re.simps) simp
next
  case (Suc m)
  then have lt: "k < len" and m: "m = len - Suc k" by simp_all
  show ?case
  proof (cases "k < length (subscribers w)")
    case True
    obtain w1 r where inv: "invoke_re h acts (subscribers w ! k) w = (w1, r)"
      by (cases "invoke_re h acts (subscribers w ! k) w")
    have "r = None"
      using normal_invoke_re [of acts h "subscribers w ! k" w] assms inv by simp
    then show ?thesis
      using Suc.hyps(1) [OF m, of w1] lt True inv by (subst forEach_re.simps) simp
  next
    case False
    then show ?thesis using Suc.hyps(1) [OF m, of w] lt by (subst forEach_re.simps) simp
  qed
qed

lemma runActions_registry_only:
  "runActions_re h (map Registry as) w = (runActions as w, None)"
  by (induction as w rule: runActions.induct) simp_all

lemma invoke_registry_only:
  "invoke_re h (registry_only acts) c w = (invoke acts c w, None)"
  by (cases c) (simp_all add: invoke_re_def invoke_def Let_def runActions_registry_only)

lemma forEach_registry_only:
  "forEach_re h (registry_only acts) k len w = (forEach acts k len w, None)"
proof (induction "len - k" arbitrary: k w)
  case 0
  then show ?case by (subst forEach_re.simps, subst forEach.simps) simp
next
  case (Suc m)
  then have lt: "k < len" and m: "m = len - Suc k" by simp_all
  show ?case
    using Suc.hyps(1) [OF m] lt
    by (subst forEach_re.simps, subst forEach.simps) (simp add: invoke_registry_only)
qed

lemma perform_registry_only:
  "perform_re h (registry_only acts) operation w = (perform acts operation w, None)"
  by (simp add: perform_re_eq perform_eq subscribers_forEach_re_def subscribers_forEach_def
      forEach_registry_only)

text \<open>
  More on the navigation refs: they are kept while the callback of the composable is not
  registered, and synced by every operation while it is.
\<close>

lemma subscribers_update_same: "(w\<lparr>subscribers := a\<rparr> = w) = (a = subscribers w)"
  using subscribers_update_eq [where w = w and a = a and b = "subscribers w"] by simp










section \<open>The claims\<close>

text \<open>
  C1, as the code has it. No operation looks at the current state: from every state \<open>S\<close>
  the outcome is the same, so no transition is rejected. When no observer calls a method
  of the intent from inside its callback, the operation leaves the intent in its
  documented target state, also when an observer throws; when moreover no observer throws,
  the operation raises no error.
\<close>

theorem total_transition_coverage:
  "perform_re h acts operation (w\<lparr>state := S\<rparr>) = perform_re h acts operation (w\<lparr>state := S'\<rparr>) \<and>
   ((\<forall>n. list_all no_call (acts n)) \<longrightarrow>
      state (fst (perform_re h acts operation (w\<lparr>state := S\<rparr>))) = documented_target operation) \<and>
   ((\<forall>n. list_all no_call (acts n)) \<and> (\<forall>n. list_all no_throw (acts n)) \<longrightarrow>
      snd (perform_re h acts operation (w\<lparr>state := S\<rparr>)) = None)"
  by (simp add: perform_re_eq subscribers_forEach_re_def state_forEach_re normal_forEach_re)

theorem total_transition_coverage_witness:
  "(\<forall>n. list_all no_call (registry_only self_detaching n)) \<and>
   (\<forall>n. list_all no_throw (registry_only self_detaching n)) \<and>
   state (fst (perform_re (call_re 1 (registry_only self_detaching)) (registry_only self_detaching)
                 Complete (two_observers\<lparr>state := failed\<rparr>))) = completed \<and>
   snd (perform_re (call_re 1 (registry_only self_detaching)) (registry_only self_detaching)
          Complete (two_observers\<lparr>state := failed\<rparr>)) = None"
  using total_transition_coverage
    [where h = "call_re 1 (registry_only self_detaching)"
       and acts = "registry_only self_detaching" and operation = Complete
       and w = two_observers and S = failed and S' = failed]
  by (simp add: list_all_iff)

text \<open>
  C1 as stated fails: an observer that calls \<open>complete()\<close> while \<open>start()\<close> fans out makes
  \<open>start()\<close> return, with no error, in the state \<open>completed\<close>, not \<open>started\<close>; an observer
  that throws makes \<open>start()\<close> raise; observers that call \<open>start()\<close> again without end
  make it raise \<open>RangeError\<close>.
\<close>

theorem reentrant_observer_overrides_target:
  "state (fst (call_re 2 completing_once Start one_observer)) = completed \<and>
   snd (call_re 2 completing_once Start one_observer) = None \<and>
   documented_target Start = started \<and>
   snd (call_re 2 throwing Start one_observer) = Some ObserverError \<and>
   snd (call_re 3 restarting Start one_observer) = Some RangeError"
  by (simp add: numeral_2_eq_2 numeral_3_eq_3 one_observer_def start_re_def complete_re_def
      subscribers_forEach_re_def forEach_re.simps invoke_re_def
      subscribe_def createIntent_def unsubscribe_def splice1_def Let_def)






text \<open>
  C4, as the code has it. In every state of the observer list, a call of an unsubscribe
  handle, be it the first, the second or a later one, changes nothing but the list and
  never the entries of other callbacks. It changes nothing at all exactly when its
  callback has no entry in the list at that moment; otherwise it removes the earliest
  entry of that callback, whichever subscription made it. Hence a second call right after
  the first is a no-op exactly when the callback had at most one entry; and when the
  callback is subscribed again after the first call, a later call of the old handle
  detaches the new registration.
\<close>

theorem unsubscribe_any_call:
  "unsubscribe c w = w\<lparr>subscribers := remove1 c (subscribers w)\<rparr> \<and>
   (unsubscribe c w = w) = (c \<notin> set (subscribers w)) \<and>
   filter (\<lambda>x. x \<noteq> c) (subscribers (unsubscribe c w)) = filter (\<lambda>x. x \<noteq> c) (subscribers w) \<and>
   count_list (subscribers (unsubscribe c w)) c = count_list (subscribers w) c - 1 \<and>
   (unsubscribe c (unsubscribe c w) = unsubscribe c w) = (count_list (subscribers w) c \<le> 1) \<and>
   (count_list (subscribers w) c \<le> 1 \<longrightarrow>
      unsubscribe c (subscribe c (unsubscribe c w)) = unsubscribe c w)"
proof (intro conjI impI)
  show eq: "unsubscribe c w = w\<lparr>subscribers := remove1 c (subscribers w)\<rparr>"
    by (rule unsubscribe_remove1)
  show "(unsubscribe c w = w) = (c \<notin> set (subscribers w))"
    by (simp add: unsubscribe_remove1 subscribers_update_same remove1_fixed)
  show "filter (\<lambda>x. x \<noteq> c) (subscribers (unsubscribe c w)) = filter (\<lambda>x. x \<noteq> c) (subscribers w)"
    by (simp add: unsubscribe_remove1 filter_remove1)
  show "count_list (subscribers (unsubscribe c w)) c = count_list (subscribers w) c - 1"
    by (simp add: unsubscribe_remove1 count_list_remove1)
  have A: "(unsubscribe c (unsubscribe c w) = unsubscribe c w) =
             (c \<notin> set (remove1 c (subscribers w)))"
    by (simp add: unsubscribe_remove1 subscribers_update_eq remove1_fixed)
  have B: "(c \<notin> set (remove1 c (subscribers w))) =
             (count_list (remove1 c (subscribers w)) c = 0)"
    by (simp only: count_list_0_iff)
  have C: "(count_list (remove1 c (subscribers w)) c = 0) = (count_list (subscribers w) c \<le> 1)"
    by (simp only: count_list_remove1 pred_zero_iff)
  show "(unsubscribe c (unsubscribe c w) = unsubscribe c w) = (count_list (subscribers w) c \<le> 1)"
    unfolding A B C by (rule refl)
  assume "count_list (subscribers w) c \<le> 1"
  then have "c \<notin> set (remove1 c (subscribers w))" unfolding B C .
  then show "unsubscribe c (subscribe c (unsubscribe c w)) = unsubscribe c w"
    by (simp add: unsubscribe_remove1 subscribe_def remove1_append)
qed

theorem unsubscribe_any_call_witness:
  "count_list (subscribers two_observers) (Spy 0) \<le> 1 \<and>
   unsubscribe (Spy 0) (subscribe (Spy 0) (unsubscribe (Spy 0) two_observers)) =
     unsubscribe (Spy 0) two_observers \<and>
   subscribers (unsubscribe (Spy 0) two_observers) = [Spy 1] \<and>
   unsubscribe (Spy 0) (unsubscribe (Spy 0) two_observers) = unsubscribe (Spy 0) two_observers \<and>
   unsubscribe (Spy 2) two_observers = two_observers"
proof -
  have once: "count_list (subscribers two_observers) (Spy 0) \<le> 1"
    and absent: "Spy 2 \<notin> set (subscribers two_observers)"
    and left: "subscribers (unsubscribe (Spy 0) two_observers) = [Spy 1]"
    by (simp_all add: two_observers_def subscribe_def createIntent_def unsubscribe_def
        splice1_def Let_def)
  show ?thesis
    using unsubscribe_any_call [of "Spy 0" two_observers]
      unsubscribe_any_call [of "Spy 2" two_observers] once absent left
    by blast
qed

text \<open>
  C4 as stated fails: after the same function has been subscribed twice, the first call
  of the handle leaves one registration attached and the second call of the same handle
  detaches that one too.
\<close>

theorem unsubscribe_twice_detaches_both:
  "subscribers (unsubscribe (Spy 0) twice_subscribed) = [Spy 0] \<and>
   subscribers (unsubscribe (Spy 0) (unsubscribe (Spy 0) twice_subscribed)) = []"
  by (simp add: twice_subscribed_def unsubscribe_def subscribe_def createIntent_def splice1_def
      Let_def)







text \<open>
  C7. \<open>reset()\<close> and \<open>replay()\<close> are the same function of the world: from every state and
  with every registry they leave the same state, \<open>idle\<close>, the same registry, and the same
  log of observer calls.
\<close>

theorem reset_replay_equivalent:
  "reset acts w = replay acts w \<and> state (reset acts w) = idle \<and> state (replay acts w) = idle"
  by (simp add: reset_def replay_def subscribers_forEach_def state_forEach)

text \<open>
  C8. In every state the five predicates of the intent, and the five computed properties
  of \<open>useIntent\<close>, have the documented truth values, which depend on the state only; at
  most one of them is true, and none is true in \<open>idle\<close>.
\<close>

theorem derived_predicates_truth_table:
  "(isActive w, isCompleted w, isFailed w, isBlocked w, isWaiting w) =
     documented_predicates (state w) \<and>
   (useIntent_isActive s, useIntent_isCompleted s, useIntent_isFailed s,
    useIntent_isBlocked s, useIntent_isWaiting s) = documented_predicates s \<and>
   count_true (isActive w, isCompleted w, isFailed w, isBlocked w, isWaiting w) \<le> 1 \<and>
   count_true (isActive (w\<lparr>state := idle\<rparr>), isCompleted (w\<lparr>state := idle\<rparr>),
               isFailed (w\<lparr>state := idle\<rparr>), isBlocked (w\<lparr>state := idle\<rparr>),
               isWaiting (w\<lparr>state := idle\<rparr>)) = 0"
  by (cases "state w"; cases s)
     (simp_all add: isActive_def isCompleted_def isFailed_def isBlocked_def isWaiting_def
        useIntent_isActive_def useIntent_isCompleted_def useIntent_isFailed_def
        useIntent_isBlocked_def useIntent_isWaiting_def)

text \<open>
  C9. In \<open>useIntentState\<close>, \<open>updateState\<close> with the state that is already tracked returns
  the tracker unchanged (previous, history, duration and start time). After any sequence
  of operations, with any observers, the history is not empty, ends with the tracked
  state and has no two equal neighbours. For an intent with \<open>subscribe\<close> whose observers
  leave the registry alone, the history is the initial state followed by the targets of
  the operations with adjacent repetitions collapsed, and the tracked state is the
  intent's state.
\<close>

theorem history_collapses_repeats:
  "(newState = currentState t \<longrightarrow> updateState now newState t = t) \<and>
   history_ok (trackerRefs (perform_all acts ops (useIntentState w))) \<and>
   (cfg_subscribe (config w) \<and> list_all (non_mutating acts) (subscribers w) \<longrightarrow>
      transitions (trackerRefs (perform_all acts ops (useIntentState w))) =
        remdups_adj (state w # map documented_target ops) \<and>
      currentState (trackerRefs (perform_all acts ops (useIntentState w))) =
        state (perform_all acts ops (useIntentState w)))"
proof (intro conjI impI)
  show "updateState now newState t = t" if "newState = currentState t"
    using that by (simp add: updateState_def)
  let ?u = "useIntentState w"
  have "history_ok (trackerRefs ?u)"
    by (simp add: useIntentState_def Let_def subscribe_def history_ok_def)
  then show "history_ok (trackerRefs (perform_all acts ops ?u))"
    by (rule history_ok_perform_all)
  assume obs: "cfg_subscribe (config w) \<and> list_all (non_mutating acts) (subscribers w)"
  then have pre: "list_all (non_mutating acts) (subscribers ?u)"
    "TrackStateCb \<in> set (subscribers ?u)"
    "currentState (trackerRefs ?u) = state ?u"
    "transitions (trackerRefs ?u) \<noteq> []"
    "last (transitions (trackerRefs ?u)) = state ?u"
    by (simp_all add: useIntentState_def Let_def subscribe_def)
  have start: "state ?u = state w" "butlast (transitions (trackerRefs ?u)) = []"
    by (simp_all add: useIntentState_def Let_def subscribe_def)
  from tracker_perform_all [OF pre, of ops]
  show "transitions (trackerRefs (perform_all acts ops ?u)) =
          remdups_adj (state w # map documented_target ops)"
    and "currentState (trackerRefs (perform_all acts ops ?u)) = state (perform_all acts ops ?u)"
    by (simp_all add: start)
qed

theorem history_collapses_repeats_witness:
  "idle = currentState (trackerRefs (useIntentState (createIntent upload_config))) \<and>
   updateState 100 idle (trackerRefs (useIntentState (createIntent upload_config))) =
     trackerRefs (useIntentState (createIntent upload_config)) \<and>
   cfg_subscribe (config (createIntent upload_config)) \<and>
   list_all (non_mutating recording) (subscribers (createIntent upload_config)) \<and>
   transitions (trackerRefs (perform_all recording
       [Start, Progress (Some ''chunk-1''), Progress (Some ''chunk-2''), Complete]
       (useIntentState (createIntent upload_config)))) =
     [idle, started, in_progress, completed]"
  using history_collapses_repeats
    [of idle "trackerRefs (useIntentState (createIntent upload_config))" 100 recording
        "[Start, Progress (Some ''chunk-1''), Progress (Some ''chunk-2''), Complete]"
        "createIntent upload_config"]
  by (simp add: createIntent_def upload_config_def useIntentState_def Let_def subscribe_def)

text \<open>
  C10. With a binding value that is \<open>null\<close> or \<open>undefined\<close>, \<open>updateElement\<close> returns the
  element as it was, and the hooks \<open>mounted\<close> and \<open>updated\<close> leave the whole world as it
  was: no attribute, class, style or private field of the element changes, nothing is
  subscribed, and the result does not depend on the intent.
\<close>

theorem directive_ignores_absent_binding:
  assumes "bvalue b = Null \<or> bvalue b = Undefined"
  shows "updateElement w b e = e \<and> mounted b w = w \<and> updated b w = w"
  using assms by (auto simp: updateElement_def mounted_def updated_def)

theorem directive_ignores_absent_binding_witness:
  "bvalue \<lparr>bvalue = Null, barg = Some ''disabled''\<rparr> = Null \<and>
   updateElement (createIntent upload_config) \<lparr>bvalue = Null, barg = Some ''disabled''\<rparr>
     blankElement = blankElement \<and>
   mounted \<lparr>bvalue = Null, barg = Some ''disabled''\<rparr> (createIntent upload_config) =
     createIntent upload_config \<and>
   updated \<lparr>bvalue = Null, barg = Some ''disabled''\<rparr> (createIntent upload_config) =
     createIntent upload_config"
  using directive_ignores_absent_binding
    [of "\<lparr>bvalue = Null, barg = Some ''disabled''\<rparr>" "createIntent upload_config" blankElement]
  by simp

end
